theory Spec2Isabelle
  imports Main
begin

section \<open>TRX.js: thread handles over workers (src/index.ts)\<close>

text \<open>
  The module keeps a process-wide counter \<^verbatim>\<open>threadIdCounter\<close> and, per spawned thread, a
  closure with the lifecycle variables (\<^verbatim>\<open>interrupted\<close>, \<^verbatim>\<open>completed\<close>,
  \<^verbatim>\<open>completionCode\<close>, \<^verbatim>\<open>completionError\<close>, \<^verbatim>\<open>completionResolve\<close>,
  \<^verbatim>\<open>completionReject\<close>, \<^verbatim>\<open>timeoutId\<close>), two message ports and a worker. The model
  is a state record per handle and one function per callback of the source; the event loop is
  a list of events, each of which runs one callback to its end (JavaScript runs a callback
  without interleaving).
\<close>

subsection \<open>JavaScript values\<close>

text \<open>
  Values that cross a port. Numbers are the integer-valued ones (the source only ever posts
  the codes 0 and 1); fractions and NaN are not modelled.
\<close>

datatype jsval =
    JUndef
  | JNull
  | JBool bool
  | JNum int
  | JStr string
  | JObj "(string \<times> jsval) list"

text \<open>\<^verbatim>\<open>if (v)\<close>, \<^verbatim>\<open>v && ...\<close>, \<^verbatim>\<open>v || ...\<close>: JavaScript truthiness.\<close>

fun truthy :: "jsval \<Rightarrow> bool" where
  "truthy JUndef = False"
| "truthy JNull = False"
| "truthy (JBool b) = b"
| "truthy (JNum n) = (n \<noteq> 0)"
| "truthy (JStr s) = (s \<noteq> [])"
| "truthy (JObj kvs) = True"

text \<open>
  \<^verbatim>\<open>v.k\<close> for the property names the source reads (\<^verbatim>\<open>type\<close>, \<^verbatim>\<open>code\<close>,
  \<^verbatim>\<open>error\<close>, \<^verbatim>\<open>message\<close>, \<^verbatim>\<open>stack\<close>): a missing property and a property of a
  primitive are \<^verbatim>\<open>undefined\<close>. Reading a property of \<^verbatim>\<open>undefined\<close> or \<^verbatim>\<open>null\<close>
  throws a TypeError; every caller below tests for that first, as the source does.
\<close>

fun get_prop :: "jsval \<Rightarrow> string \<Rightarrow> jsval" where
  "get_prop (JObj kvs) k = (case map_of kvs k of None \<Rightarrow> JUndef | Some v \<Rightarrow> v)"
| "get_prop _ k = JUndef"

text \<open>
  An \<^verbatim>\<open>Error\<close> object, identified by its message. The source builds each message with a
  template literal; the model keeps the literal as it is written, its fixed text and the values
  it interpolates. The characters an interpolated value contributes are those of the
  platform's string conversion (a string contributes itself); the model does not compute them.
  The type \<open>'t\<close> is the type of the timeout handed to \<^verbatim>\<open>join\<close>: the source passes it
  to \<^verbatim>\<open>setTimeout\<close> and into the message and does nothing else with it, so any JavaScript
  number (negative and fractional ones too) is covered by leaving its type open.
\<close>

datatype 't part = Lit string | NumberText 't | ValueText jsval

datatype 't error = Error "'t part list"

text \<open>The state of a promise returned by \<^verbatim>\<open>join\<close>.\<close>

datatype 't settlement = Pending | Resolved jsval | Rejected "'t error"

subsection \<open>Thread ids\<close>

text \<open>
  \<^verbatim>\<open>const mainThreadId = 0; let threadIdCounter = 1;\<close>
  The counter is a JavaScript number, an IEEE double: \<^verbatim>\<open>threadIdCounter++\<close> adds exactly 1
  while the value is below \<open>2 ^ 53\<close>; at \<open>2 ^ 53\<close> the sum \<open>2 ^ 53 + 1\<close> is not
  representable and rounds (ties to even) back to \<open>2 ^ 53\<close>, so the counter stays there.
  From the initial value 1 no other value is ever reached.
\<close>

definition mainThreadId :: nat where
  "mainThreadId = 0"

definition threadIdCounter_init :: nat where
  "threadIdCounter_init = 1"

definition getThreadId :: nat where
  "getThreadId = mainThreadId"

definition js_incr :: "nat \<Rightarrow> nat" where
  "js_incr n = (if n < 2 ^ 53 then n + 1 else n)"

subsection \<open>The lifecycle state of a handle\<close>

text \<open>
  The calls the closure makes on the platform are kept in a log, in call order.
\<close>

datatype effect = WorkerTerminate | PortClose | RevokeObjectURL

text \<open>
  The first seven fields are the \<^verbatim>\<open>let\<close> variables of \<^verbatim>\<open>spawn\<close>. A stored
  \<^verbatim>\<open>resolve\<close>/\<^verbatim>\<open>reject\<close> function is the number of the promise it settles. The rest
  is the part of the platform the closure acts on: whether \<^verbatim>\<open>errorHandler\<close> and
  \<^verbatim>\<open>completionHandler\<close> are still registered, the pending timers (each with the timeout and
  the promise its callback closes over), the promises created so far, and the log.
\<close>

record 't handle_state =
  interrupted :: bool
  completed :: bool
  completionCode :: jsval
  completionError :: "'t error option"
  completionResolve :: "nat option"
  completionReject :: "nat option"
  timeoutId :: "nat option"
  errorListener :: bool
  completionListener :: bool
  timers :: "nat \<rightharpoonup> ('t \<times> nat)"
  nextTimer :: nat
  promises :: "nat \<Rightarrow> 't settlement"
  nextPromise :: nat
  effects :: "effect list"

text \<open>The state \<^verbatim>\<open>spawn\<close> leaves behind: both handlers registered, nothing else done.\<close>

definition handle_init :: "'t handle_state" where
  "handle_init = \<lparr> interrupted = False, completed = False, completionCode = JNum 0,
     completionError = None, completionResolve = None, completionReject = None,
     timeoutId = None, errorListener = True, completionListener = True,
     timers = Map.empty, nextTimer = 0, promises = (\<lambda>_. Pending), nextPromise = 0,
     effects = [] \<rparr>"

text \<open>A promise is settled once: a later \<^verbatim>\<open>resolve\<close> or \<^verbatim>\<open>reject\<close> does nothing.\<close>

definition resolve :: "nat \<Rightarrow> jsval \<Rightarrow> 't handle_state \<Rightarrow> 't handle_state" where
  "resolve p v st =
     (if promises st p = Pending then st\<lparr>promises := (promises st)(p := Resolved v)\<rparr> else st)"

definition reject :: "nat \<Rightarrow> 't error \<Rightarrow> 't handle_state \<Rightarrow> 't handle_state" where
  "reject p e st =
     (if promises st p = Pending then st\<lparr>promises := (promises st)(p := Rejected e)\<rparr> else st)"

definition clearTimeout :: "nat \<Rightarrow> 't handle_state \<Rightarrow> 't handle_state" where
  "clearTimeout tid st = st\<lparr>timers := (timers st)(tid := None)\<rparr>"

text \<open>
  \<^verbatim>\<open>worker.removeEventListener("error", errorHandler);
  completionPort1.removeEventListener("message", completionHandler);\<close>
\<close>

definition removeListeners :: "'t handle_state \<Rightarrow> 't handle_state" where
  "removeListeners st = st\<lparr>errorListener := False, completionListener := False\<rparr>"

definition terminate :: "'t handle_state \<Rightarrow> 't handle_state" where
  "terminate st = st\<lparr>effects := effects st @ [WorkerTerminate]\<rparr>"

text \<open>\<^verbatim>\<open>const cleanup = () => { completionPort1.close(); URL.revokeObjectURL(workerUrl); }\<close>\<close>

definition cleanup :: "'t handle_state \<Rightarrow> 't handle_state" where
  "cleanup st = st\<lparr>effects := effects st @ [PortClose, RevokeObjectURL]\<rparr>"

text \<open>\<^verbatim>\<open>if (timeoutId !== undefined) { clearTimeout(timeoutId); }\<close>\<close>

definition clearPendingTimeout :: "'t handle_state \<Rightarrow> 't handle_state" where
  "clearPendingTimeout st = (case timeoutId st of None \<Rightarrow> st | Some tid \<Rightarrow> clearTimeout tid st)"

definition errorHandler :: "string \<Rightarrow> 't handle_state \<Rightarrow> 't handle_state" where
  "errorHandler message st =
     (if \<not> completed st then
        let e = Error [Lit ''Worker error: '', Lit message];
            st1 = clearPendingTimeout (removeListeners (st\<lparr>completed := True\<rparr>));
            st2 = cleanup (terminate (st1\<lparr>completionError := Some e\<rparr>))
        in (case completionReject st2 of None \<Rightarrow> st2 | Some p \<Rightarrow> reject p e st2)
      else st)"

definition completionHandler :: "jsval \<Rightarrow> 't handle_state \<Rightarrow> 't handle_state" where
  "completionHandler data st =
     (if truthy data \<and> get_prop data ''type'' = JStr ''__thread_complete__'' \<and> \<not> completed st then
        let st1 = clearPendingTimeout (removeListeners (st\<lparr>completed := True\<rparr>))
        in if truthy (get_prop data ''error'') then
             let e = Error [Lit ''Thread error: '', ValueText (get_prop data ''error'')];
                 st2 = cleanup (st1\<lparr>completionError := Some e\<rparr>)
             in (case completionReject st2 of None \<Rightarrow> st2 | Some p \<Rightarrow> reject p e st2)
           else
             let c = (if truthy (get_prop data ''code'') then get_prop data ''code'' else JNum 0);
                 st2 = cleanup (st1\<lparr>completionCode := c\<rparr>)
             in (case completionResolve st2 of None \<Rightarrow> st2 | Some p \<Rightarrow> resolve p c st2)
      else st)"

text \<open>
  The callback \<^verbatim>\<open>join\<close> hands to \<^verbatim>\<open>setTimeout\<close>; \<open>timeout\<close> and the promise \<open>p\<close> (its
  \<^verbatim>\<open>reject\<close>) are the variables it closes over.
\<close>

definition timeoutError :: "'t \<Rightarrow> 't error" where
  "timeoutError timeout = Error [Lit ''Thread join timed out after '', NumberText timeout, Lit ''ms'']"

definition timeoutCallback :: "'t \<Rightarrow> nat \<Rightarrow> 't handle_state \<Rightarrow> 't handle_state" where
  "timeoutCallback timeout p st =
     (if \<not> completed st then
        let st1 = cleanup (terminate (removeListeners (st\<lparr>completed := True\<rparr>)))
        in reject p (timeoutError timeout) (st1\<lparr>completionError := Some (timeoutError timeout)\<rparr>)
      else st)"

text \<open>
  \<^verbatim>\<open>join(timeout)\<close>: creates a promise and runs its executor at once. The result is the
  promise and the new state. \<open>None\<close> is a call without a timeout (\<^verbatim>\<open>undefined\<close>).
\<close>

definition join :: "'t option \<Rightarrow> 't handle_state \<Rightarrow> nat \<times> 't handle_state" where
  "join timeout st0 =
     (let p = nextPromise st0;
          st = st0\<lparr>promises := (promises st0)(p := Pending), nextPromise := p + 1\<rparr>
      in (p,
        if interrupted st then resolve p (JNum 1) st
        else if completed st then
          (case completionError st of
             Some e \<Rightarrow> reject p e st
           | None \<Rightarrow> resolve p (completionCode st) st)
        else
          let st1 = st\<lparr>completionResolve := Some p, completionReject := Some p\<rparr>
          in (case timeout of
                None \<Rightarrow> st1
              | Some t \<Rightarrow>
                  st1\<lparr>timeoutId := Some (nextTimer st1),
                      timers := (timers st1)(nextTimer st1 \<mapsto> (t, p)),
                      nextTimer := nextTimer st1 + 1\<rparr>)))"

definition interrupt :: "'t handle_state \<Rightarrow> 't handle_state" where
  "interrupt st =
     cleanup (terminate (removeListeners (st\<lparr>interrupted := True, completed := True\<rparr>)))"

subsection \<open>The event loop of a handle\<close>

text \<open>
  What can happen to a handle: the owner calls \<^verbatim>\<open>join\<close> or \<^verbatim>\<open>interrupt\<close>, a message
  arrives on the completion port, the worker raises an \<^verbatim>\<open>error\<close> event, a timer fires.
  An event reaches a handler only while the handler is registered, and a timer fires only
  while it is pending.
\<close>

datatype 't event =
    Join "'t option"
  | Interrupt
  | CompletionMessage jsval
  | WorkerError string
  | TimerFire nat

fun step :: "'t handle_state \<Rightarrow> 't event \<Rightarrow> 't handle_state" where
  "step st (Join timeout) = snd (join timeout st)"
| "step st Interrupt = interrupt st"
| "step st (CompletionMessage data) =
     (if completionListener st then completionHandler data st else st)"
| "step st (WorkerError message) =
     (if errorListener st then errorHandler message st else st)"
| "step st (TimerFire tid) =
     (case timers st tid of
        None \<Rightarrow> st
      | Some (t, p) \<Rightarrow> timeoutCallback t p (clearTimeout tid st))"

definition run :: "'t handle_state \<Rightarrow> 't event list \<Rightarrow> 't handle_state" where
  "run st evs = foldl step st evs"

text \<open>The value a \<^verbatim>\<open>join\<close> reads once the handle is terminal.\<close>

definition stored_outcome :: "'t handle_state \<Rightarrow> 't settlement" where
  "stored_outcome st =
     (if interrupted st then Resolved (JNum 1)
      else case completionError st of Some e \<Rightarrow> Rejected e | None \<Rightarrow> Resolved (completionCode st))"

subsection \<open>The worker side\<close>

text \<open>
  A job is the function handed to \<^verbatim>\<open>spawn\<close>: it sends zero or more messages through
  \<^verbatim>\<open>transmit.send\<close> and then returns a value (or its promise resolves with one), throws a
  value (or its promise rejects with one), or never finishes. This is the job as its type
  \<^verbatim>\<open>(transmit: { send }) => void\<close> describes it: it reaches the owner through
  \<^verbatim>\<open>transmit\<close> only. A function whose source text names the worker script's own variables
  is not covered.
\<close>

datatype outcome = Returns jsval | Throws jsval | Diverges

record job =
  sends :: "jsval list"
  outcome :: outcome

definition errorObject :: "string \<Rightarrow> string \<Rightarrow> jsval" where
  "errorObject message stack = JObj [(''message'', JStr message), (''stack'', JStr stack)]"

text \<open>
  The \<^verbatim>\<open>try\<close>/\<^verbatim>\<open>catch\<close> of \<^verbatim>\<open>workerCode\<close>: the messages the worker posts on the
  message port and on the completion port, in order. In the \<^verbatim>\<open>catch\<close> block
  \<^verbatim>\<open>error.message\<close> on a thrown \<^verbatim>\<open>undefined\<close> or \<^verbatim>\<open>null\<close> is itself a TypeError,
  which leaves the handler before anything is posted.
\<close>

definition workerCode :: "job \<Rightarrow> jsval list \<times> jsval list" where
  "workerCode j =
     (case outcome j of
        Returns r \<Rightarrow>
          (sends j, [JObj [(''type'', JStr ''__thread_complete__''), (''code'', JNum 0)]])
      | Throws e \<Rightarrow>
          (if e = JUndef \<or> e = JNull then (sends j, [])
           else
             (sends j @ [JObj [(''error'', get_prop e ''message''), (''stack'', get_prop e ''stack'')]],
              [JObj [(''type'', JStr ''__thread_complete__''), (''code'', JNum 1),
                     (''error'', get_prop e ''message'')]]))
      | Diverges \<Rightarrow> (sends j, []))"

subsection \<open>The message port of a handle\<close>

text \<open>
  \<^verbatim>\<open>messagePort1\<close> is an event target with a message queue. The platform holds the posted
  messages until \<^verbatim>\<open>start()\<close>; from then on it takes them from the queue one at a time, in
  posting order, and dispatches each as a \<^verbatim>\<open>message\<close> event to the \<^verbatim>\<open>onmessage\<close> slot
  and to every listener registered at that moment. A message dispatched to nobody is gone.
  A \<^verbatim>\<open>recv\<close> listener is the number of the promise it resolves; a callback given to
  \<^verbatim>\<open>onMessage\<close> is a number, and \<open>calls\<close> logs its invocations.
\<close>

record port_state =
  started :: bool
  queue :: "jsval list"
  onmessage :: "nat option"
  listeners :: "nat list"
  received :: "nat \<Rightarrow> jsval option"
  nextRecv :: nat
  calls :: "(nat \<times> jsval) list"

definition port_init :: port_state where
  "port_init = \<lparr> started = False, queue = [], onmessage = None, listeners = [],
     received = (\<lambda>_. None), nextRecv = 0, calls = [] \<rparr>"

text \<open>
  \<^verbatim>\<open>onMessage: (callback) => { messagePort1.onmessage = (event) => callback(event.data);
  messagePort1.start(); }\<close>
\<close>

definition onMessage :: "nat \<Rightarrow> port_state \<Rightarrow> port_state" where
  "onMessage callback ps = ps\<lparr>onmessage := Some callback, started := True\<rparr>"

text \<open>
  \<^verbatim>\<open>recv\<close>: a new promise whose listener is added to the port. The result is the promise
  and the new state.
\<close>

definition recv :: "port_state \<Rightarrow> nat \<times> port_state" where
  "recv ps =
     (let p = nextRecv ps
      in (p, ps\<lparr>received := (received ps)(p := None), nextRecv := p + 1,
                listeners := listeners ps @ [p], started := True\<rparr>))"

text \<open>
  \<^verbatim>\<open>const handler = (event) => { messagePort1.removeEventListener("message", handler);
  resolve(event.data); }\<close>
\<close>

definition handler :: "jsval \<Rightarrow> nat \<Rightarrow> port_state \<Rightarrow> port_state" where
  "handler m p ps =
     ps\<lparr>listeners := removeAll p (listeners ps),
        received := (if received ps p = None then (received ps)(p := Some m) else received ps)\<rparr>"

text \<open>The worker's \<^verbatim>\<open>port.postMessage(data)\<close> arriving at the owner's end.\<close>

definition post :: "jsval \<Rightarrow> port_state \<Rightarrow> port_state" where
  "post m ps = ps\<lparr>queue := queue ps @ [m]\<rparr>"

text \<open>
  One \<^verbatim>\<open>message\<close> event: the head of the queue goes to the \<^verbatim>\<open>onmessage\<close> callback, if
  one is set, and to each listener that was registered when the dispatch began.
\<close>

definition dispatch :: "port_state \<Rightarrow> port_state" where
  "dispatch ps =
     (if started ps then
        (case queue ps of
           [] \<Rightarrow> ps
         | m # q \<Rightarrow>
             fold (handler m) (listeners ps)
               (case onmessage ps of
                  None \<Rightarrow> ps\<lparr>queue := q\<rparr>
                | Some cb \<Rightarrow> ps\<lparr>queue := q, calls := calls ps @ [(cb, m)]\<rparr>))
      else ps)"

datatype port_event = Post jsval | Dispatch | Recv | OnMessage nat

fun port_step :: "port_state \<Rightarrow> port_event \<Rightarrow> port_state" where
  "port_step ps (Post m) = post m ps"
| "port_step ps Dispatch = dispatch ps"
| "port_step ps Recv = snd (recv ps)"
| "port_step ps (OnMessage cb) = onMessage cb ps"

definition port_run :: "port_state \<Rightarrow> port_event list \<Rightarrow> port_state" where
  "port_run ps evs = foldl port_step ps evs"

subsection \<open>Spawning\<close>

record 't thread =
  workerThreadId :: nat
  lifecycle :: "'t handle_state"
  port :: port_state

text \<open>
  \<^verbatim>\<open>const workerThreadId = threadIdCounter++;\<close> and the wiring of the handle. The result is
  the handle and the new value of the counter.
\<close>

definition spawn :: "nat \<Rightarrow> 't thread \<times> nat" where
  "spawn threadIdCounter =
     (\<lparr> workerThreadId = threadIdCounter, lifecycle = handle_init, port = port_init \<rparr>,
      js_incr threadIdCounter)"

text \<open>
  The ids returned by \<open>n\<close> calls of \<^verbatim>\<open>spawn\<close> in a row, in call order. The ids do
  not depend on the type of the timeouts, which is fixed here to have one.
\<close>

fun spawn_ids :: "nat \<Rightarrow> nat \<Rightarrow> nat list" where
  "spawn_ids threadIdCounter 0 = []"
| "spawn_ids threadIdCounter (Suc n) =
     workerThreadId (fst (spawn threadIdCounter :: unit thread \<times> nat))
       # spawn_ids (snd (spawn threadIdCounter :: unit thread \<times> nat)) n"

subsection \<open>Predicates and projections used in the statements\<close>

text \<open>
  A handle is running while none of the terminal paths has run: the flags are unset, no
  error is stored, and both handlers are still registered.
\<close>

definition running :: "'t handle_state \<Rightarrow> bool" where
  "running st \<longleftrightarrow>
     \<not> interrupted st \<and> \<not> completed st \<and> completionError st = None
     \<and> errorListener st \<and> completionListener st"

text \<open>The test at the head of \<^verbatim>\<open>completionHandler\<close>, without the \<^verbatim>\<open>!completed\<close> part.\<close>

definition completionSignal :: "jsval \<Rightarrow> bool" where
  "completionSignal data \<longleftrightarrow>
     truthy data \<and> get_prop data ''type'' = JStr ''__thread_complete__''"

text \<open>What \<^verbatim>\<open>completionHandler\<close> hands to the waiter, by its two branches.\<close>

definition completionOutcome :: "jsval \<Rightarrow> 't settlement" where
  "completionOutcome data =
     (if truthy (get_prop data ''error'')
      then Rejected (Error [Lit ''Thread error: '', ValueText (get_prop data ''error'')])
      else Resolved (if truthy (get_prop data ''code'') then get_prop data ''code'' else JNum 0))"

text \<open>The messages posted in a list of port events, in order.\<close>

fun posted :: "port_event list \<Rightarrow> jsval list" where
  "posted [] = []"
| "posted (Post m # evs) = m # posted evs"
| "posted (_ # evs) = posted evs"

text \<open>Every registered \<^verbatim>\<open>recv\<close> listener belongs to a promise that is still pending.\<close>

definition port_inv :: "port_state \<Rightarrow> bool" where
  "port_inv ps \<longleftrightarrow> (\<forall>p \<in> set (listeners ps). received ps p = None \<and> p < nextRecv ps)"

section \<open>Basic facts\<close>

lemmas handle_defs = join_def resolve_def reject_def completionHandler_def errorHandler_def
  timeoutCallback_def clearTimeout_def clearPendingTimeout_def removeListeners_def
  terminate_def cleanup_def interrupt_def

lemma run_Nil [simp]: "run st [] = st"
  by (simp add: run_def)

lemma run_Cons [simp]: "run st (ev # evs) = run (step st ev) evs"
  by (simp add: run_def)

lemma port_run_Nil [simp]: "port_run ps [] = ps"
  by (simp add: port_run_def)

lemma port_run_Cons [simp]: "port_run ps (ev # evs) = port_run (port_step ps ev) evs"
  by (simp add: port_run_def)

lemma port_run_append: "port_run ps (evs @ evs') = port_run (port_run ps evs) evs'"
  by (simp add: port_run_def)

subsection \<open>Running and terminal handles\<close>

lemma running_init: "running handle_init"
  by (simp add: running_def handle_init_def)

lemma running_step:
  assumes "running st"
  shows "completed (step st ev) \<or> running (step st ev)"
  using assms
  by (cases ev) (simp_all add: running_def handle_defs Let_def split: option.splits)

lemma completed_step:
  assumes "completed st"
  shows "completed (step st ev)"
  using assms
  by (cases ev) (simp_all add: handle_defs Let_def split: option.splits)

text \<open>Every state a fresh handle can reach is terminal or running.\<close>

lemma running_reachable: "completed (run handle_init evs) \<or> running (run handle_init evs)"
proof -
  have "completed (run st evs) \<or> running (run st evs)" if "completed st \<or> running st" for st
    using that
  proof (induction evs arbitrary: st)
    case Nil
    then show ?case by simp
  next
    case (Cons ev evs)
    have "completed (step st ev) \<or> running (step st ev)"
      using Cons.prems completed_step running_step by blast
    then show ?case using Cons.IH by simp
  qed
  then show ?thesis using running_init by blast
qed

text \<open>
  Once \<^verbatim>\<open>completed\<close> is set, only \<^verbatim>\<open>interrupt\<close> changes what a later \<^verbatim>\<open>join\<close> reads
  or calls the platform again: the three guarded callbacks return at their \<^verbatim>\<open>!completed\<close>
  test.
\<close>

lemma terminal_step:
  assumes "completed st" and "ev \<noteq> Interrupt"
  shows "completed (step st ev) \<and> stored_outcome (step st ev) = stored_outcome st
    \<and> effects (step st ev) = effects st"
  using assms
  by (cases ev) (simp_all add: handle_defs Let_def stored_outcome_def split: option.splits)

lemma terminal_run:
  assumes "completed st" and "Interrupt \<notin> set evs"
  shows "completed (run st evs) \<and> stored_outcome (run st evs) = stored_outcome st
    \<and> effects (run st evs) = effects st"
  using assms
proof (induction evs arbitrary: st)
  case Nil
  then show ?case by simp
next
  case (Cons ev evs)
  from Cons.prems have ev: "ev \<noteq> Interrupt" and evs: "Interrupt \<notin> set evs" by auto
  note s = terminal_step [OF Cons.prems(1) ev]
  from s Cons.IH [of "step st ev"] evs show ?case by simp
qed

lemma join_terminal:
  assumes "completed st"
  shows "promises (snd (join t st)) (fst (join t st)) = stored_outcome st"
    and "effects (snd (join t st)) = effects st"
    and "timers (snd (join t st)) = timers st"
    and "errorListener (snd (join t st)) = errorListener st"
    and "completionListener (snd (join t st)) = completionListener st"
  using assms
  by (simp_all add: join_def resolve_def reject_def Let_def stored_outcome_def split: option.splits)

lemma join_running:
  assumes "running st"
  shows "fst (join t st) = nextPromise st"
    and "running (snd (join t st))"
    and "nextPromise (snd (join t st)) = Suc (nextPromise st)"
    and "completionResolve (snd (join t st)) = Some (nextPromise st)"
    and "completionReject (snd (join t st)) = Some (nextPromise st)"
    and "promises (snd (join t st)) = (promises st)(nextPromise st := Pending)"
    and "effects (snd (join t st)) = effects st"
  using assms by (simp_all add: running_def join_def Let_def split: option.splits)

lemma completion_running:
  assumes "running st" and "completionSignal data"
  shows "promises (step st (CompletionMessage data)) =
     (if truthy (get_prop data ''error'')
      then (case completionReject st of
              None \<Rightarrow> promises st
            | Some p \<Rightarrow> if promises st p = Pending
                then (promises st)(p := completionOutcome data) else promises st)
      else (case completionResolve st of
              None \<Rightarrow> promises st
            | Some p \<Rightarrow> if promises st p = Pending
                then (promises st)(p := completionOutcome data) else promises st))"
  using assms
  by (simp add: running_def completionSignal_def completionOutcome_def completionHandler_def
      clearPendingTimeout_def clearTimeout_def removeListeners_def cleanup_def resolve_def
      reject_def Let_def split: option.splits)

lemma completion_running_state:
  assumes "running st" and "completionSignal data" and "\<not> truthy (get_prop data ''error'')"
  shows "completed (step st (CompletionMessage data))"
    and "\<not> interrupted (step st (CompletionMessage data))"
    and "completionError (step st (CompletionMessage data)) = None"
    and "completionCode (step st (CompletionMessage data))
          = (if truthy (get_prop data ''code'') then get_prop data ''code'' else JNum 0)"
  using assms
  by (simp_all add: running_def completionSignal_def completionHandler_def
      clearPendingTimeout_def clearTimeout_def removeListeners_def cleanup_def resolve_def
      reject_def Let_def split: option.splits)

section \<open>Join on a terminal handle\<close>

lemma completed_run:
  assumes "completed st"
  shows "completed (run st evs)"
  using assms by (induction evs arbitrary: st) (simp_all add: completed_step)

text \<open>
  What does hold on a handle whose \<^verbatim>\<open>completed\<close> flag is set: every later \<^verbatim>\<open>join\<close>
  settles its promise at once with the outcome stored at that moment, makes no platform call,
  sets no timer and leaves the handlers as they are; two \<^verbatim>\<open>join\<close> calls in a row get the
  same outcome; and as long as \<^verbatim>\<open>interrupt\<close> is not called, the stored outcome and
  the log of platform calls stay those of the terminal state.
\<close>

lemma join_terminal_reads_stored_outcome:
  assumes "completed st"
  shows "promises (snd (join t (run st evs))) (fst (join t (run st evs))) = stored_outcome (run st evs)
    \<and> effects (snd (join t (run st evs))) = effects (run st evs)
    \<and> timers (snd (join t (run st evs))) = timers (run st evs)
    \<and> errorListener (snd (join t (run st evs))) = errorListener (run st evs)
    \<and> completionListener (snd (join t (run st evs))) = completionListener (run st evs)
    \<and> (Interrupt \<notin> set evs \<longrightarrow>
         stored_outcome (run st evs) = stored_outcome st \<and> effects (run st evs) = effects st)
    \<and> promises (snd (join t' (snd (join t st)))) (fst (join t' (snd (join t st))))
        = promises (snd (join t st)) (fst (join t st))"
proof -
  have c: "completed (run st evs)"
    using assms by (rule completed_run)
  have stable: "stored_outcome (run st evs) = stored_outcome st \<and> effects (run st evs) = effects st"
    if "Interrupt \<notin> set evs"
    using terminal_run [OF assms that] by simp
  have j: "completed (snd (join t st))" "stored_outcome (snd (join t st)) = stored_outcome st"
    using terminal_step [OF assms, of "Join t"] by simp_all
  have twice: "promises (snd (join t' (snd (join t st)))) (fst (join t' (snd (join t st))))
      = promises (snd (join t st)) (fst (join t st))"
    using join_terminal(1) [OF assms, of t] join_terminal(1) [OF j(1), of t'] j(2) by simp
  show ?thesis
    using join_terminal [OF c, of t] stable twice by simp
qed

text \<open>
  C7. The claim is that on a terminal handle every subsequent \<^verbatim>\<open>join\<close> uses the stored
  outcome and that two such calls agree. \<^verbatim>\<open>join\<close> tests \<^verbatim>\<open>interrupted\<close> before it
  looks at the stored outcome, and \<^verbatim>\<open>interrupt\<close> sets that flag in every state, terminal
  ones included. A job throws \<^verbatim>\<open>new Error("boom")\<close> and the signal is handled; the first
  \<^verbatim>\<open>join()\<close> (promise 0) rejects with the stored error; the owner calls
  \<^verbatim>\<open>interrupt()\<close>; the second \<^verbatim>\<open>join()\<close> (promise 1) resolves with 1.
\<close>

theorem interrupt_overrides_stored_outcome:
  "promises (run (handle_init :: int handle_state)
      (map CompletionMessage
         (snd (workerCode \<lparr>sends = [], outcome = Throws (errorObject ''boom'' ''at job'')\<rparr>))
       @ [Join None, Interrupt, Join None])) 0
    = Rejected (Error [Lit ''Thread error: '', ValueText (JStr ''boom'')])
   \<and> promises (run (handle_init :: int handle_state)
      (map CompletionMessage
         (snd (workerCode \<lparr>sends = [], outcome = Throws (errorObject ''boom'' ''at job'')\<rparr>))
       @ [Join None, Interrupt, Join None])) 1
    = Resolved (JNum 1)"
  by (simp add: handle_defs handle_init_def workerCode_def errorObject_def Let_def)

section \<open>Interrupt and a pending join\<close>

lemma pending_after_interrupt_step:
  assumes "completed st" and "promises st p = Pending" and "p < nextPromise st"
  shows "completed (step st ev) \<and> promises (step st ev) p = Pending \<and> p < nextPromise (step st ev)"
  using assms by (cases ev) (simp_all add: handle_defs Let_def split: option.splits)

lemma pending_after_interrupt_run:
  assumes "completed st" and "promises st p = Pending" and "p < nextPromise st"
  shows "promises (run st evs) p = Pending"
  using assms
proof (induction evs arbitrary: st)
  case Nil
  then show ?case by simp
next
  case (Cons ev evs)
  from pending_after_interrupt_step [OF Cons.prems, of ev] Cons.IH [of "step st ev"]
  show ?case by simp
qed

text \<open>A \<^verbatim>\<open>join\<close> called after \<^verbatim>\<open>interrupt\<close> does resolve with 1.\<close>

lemma join_after_interrupt:
  "promises (snd (join t (interrupt st))) (fst (join t (interrupt st))) = Resolved (JNum 1)"
  by (simp add: handle_defs Let_def)

text \<open>
  C1. The claim is that a \<^verbatim>\<open>join\<close> pending when \<^verbatim>\<open>interrupt()\<close> runs resolves with 1 and
  never stays unsettled. In the source \<^verbatim>\<open>interrupt\<close> sets the two flags and tears down, but
  neither calls \<^verbatim>\<open>completionResolve\<close> nor clears the timer. On a fresh handle, after
  \<^verbatim>\<open>join(t)\<close> (promise 0) and \<^verbatim>\<open>interrupt()\<close>, promise 0 is pending and stays pending
  under every further sequence of events, the firing of its own timer included.
\<close>

theorem pending_join_never_settles_after_interrupt:
  "promises (run handle_init (Join t # Interrupt # evs)) 0 = Pending"
proof -
  let ?st = "step (step handle_init (Join t)) Interrupt"
  have "completed ?st" "promises ?st 0 = Pending" "0 < nextPromise ?st"
    by (simp_all add: handle_defs handle_init_def Let_def split: option.splits)
  then have "promises (run ?st evs) 0 = Pending"
    by (rule pending_after_interrupt_run)
  then show ?thesis by simp
qed

section \<open>Teardown\<close>

text \<open>\<^verbatim>\<open>interrupt\<close> has no \<^verbatim>\<open>!completed\<close> test: it tears down in every state.\<close>

lemma interrupt_effects:
  "effects (interrupt st) = effects st @ [WorkerTerminate, PortClose, RevokeObjectURL]"
  by (simp add: handle_defs)

text \<open>
  C2. The claim is that teardown runs exactly once and that a later \<^verbatim>\<open>interrupt()\<close>
  performs none. A job returns, the completion signal is handled (\<^verbatim>\<open>cleanup\<close> runs, the
  worker is not terminated on this path), then the owner calls \<^verbatim>\<open>interrupt()\<close>: the log
  shows the port closed and the URL revoked a second time.
\<close>

theorem interrupt_after_completion_repeats_teardown:
  "effects (run (handle_init :: int handle_state)
      (map CompletionMessage (snd (workerCode \<lparr>sends = [], outcome = Returns JUndef\<rparr>))
       @ [Interrupt]))
    = [PortClose, RevokeObjectURL, WorkerTerminate, PortClose, RevokeObjectURL]"
  by (simp add: handle_defs handle_init_def workerCode_def Let_def)

section \<open>A job that throws\<close>

text \<open>
  With a non-empty message the path works: the worker posts the diagnostic on the message
  port, and a pending \<^verbatim>\<open>join\<close> rejects with the message behind the prefix
  \<^verbatim>\<open>Thread error: \<close>.
\<close>

lemma thrown_error_rejects_join:
  fixes st :: "'t handle_state"
  assumes "outcome j = Throws (errorObject message stack)" and "message \<noteq> []" and "running st"
  shows "fst (workerCode j) = sends j @ [JObj [(''error'', JStr message), (''stack'', JStr stack)]]"
    and "promises (run (snd (join t st)) (map CompletionMessage (snd (workerCode j))))
          (fst (join t st)) = Rejected (Error [Lit ''Thread error: '', ValueText (JStr message)])"
proof -
  let ?d = "JObj [(''type'', JStr ''__thread_complete__''), (''code'', JNum 1),
      (''error'', JStr message)]"
  show "fst (workerCode j) = sends j @ [JObj [(''error'', JStr message), (''stack'', JStr stack)]]"
    using assms(1) by (simp add: workerCode_def errorObject_def)
  have w: "snd (workerCode j) = [?d]"
    using assms(1) by (simp add: workerCode_def errorObject_def)
  have d: "completionSignal ?d" "truthy (get_prop ?d ''error'')"
    "completionOutcome ?d
      = (Rejected (Error [Lit ''Thread error: '', ValueText (JStr message)]) :: 't settlement)"
    using assms(2) by (simp_all add: completionSignal_def completionOutcome_def)
  note jr = join_running [OF assms(3), of t]
  have "promises (step (snd (join t st)) (CompletionMessage ?d))
      = (promises st)(nextPromise st := Rejected (Error [Lit ''Thread error: '', ValueText (JStr message)]))"
    using completion_running [OF jr(2) d(1)] d(2,3) jr(5,6) by simp
  then show "promises (run (snd (join t st)) (map CompletionMessage (snd (workerCode j))))
      (fst (join t st)) = Rejected (Error [Lit ''Thread error: '', ValueText (JStr message)])"
    using w jr(1) by simp
qed

text \<open>
  C5. The claim is that \<^verbatim>\<open>join\<close> fails for every job that throws an error. The handler
  tests \<^verbatim>\<open>if (data.error)\<close>, and the empty string is falsy: for a job that throws
  \<^verbatim>\<open>new Error("")\<close> the signal takes the success branch, and the pending \<^verbatim>\<open>join\<close>
  resolves with the code 1 the worker sent along. The diagnostic is posted all the same.
\<close>

theorem empty_message_error_resolves_join:
  "fst (workerCode \<lparr>sends = [], outcome = Throws (errorObject [] ''at job'')\<rparr>)
      = [JObj [(''error'', JStr []), (''stack'', JStr ''at job'')]]
   \<and> promises (run (handle_init :: int handle_state)
        (Join None # map CompletionMessage
           (snd (workerCode \<lparr>sends = [], outcome = Throws (errorObject [] ''at job'')\<rparr>)))) 0
      = Resolved (JNum 1)"
  by (simp add: handle_defs handle_init_def workerCode_def errorObject_def Let_def)

section \<open>Join with a timeout on a running handle\<close>

text \<open>
  Each guarded callback either leaves the state as it is or leaves it completed;
  \<^verbatim>\<open>interrupt\<close> always leaves it completed.
\<close>

lemma guarded_handlers:
  "completed (completionHandler data s) \<or> completionHandler data s = s"
  "completed (errorHandler msg s) \<or> errorHandler msg s = s"
  "completed (timeoutCallback t p s') \<or> timeoutCallback t p s' = s'"
  "completed (interrupt s)"
  by (simp_all add: handle_defs Let_def split: option.splits)

lemma join_keeps_older:
  "tid < nextTimer s \<Longrightarrow> timers (snd (join t' s)) tid = timers s tid"
  "p < nextPromise s \<Longrightarrow> promises (snd (join t' s)) p = promises s p"
  "nextTimer s \<le> nextTimer (snd (join t' s))"
  "nextPromise s \<le> nextPromise (snd (join t' s))"
  by (simp_all add: join_def resolve_def reject_def Let_def split: option.splits)

lemma timer_fire_completes:
  "timers s tid = Some tp \<Longrightarrow> completed (step s (TimerFire tid))"
  by (cases tp) (simp add: handle_defs Let_def)

lemma quiet_step:
  assumes "running (step s ev)" and "\<forall>t. ev \<noteq> Join t"
  shows "step s ev = s"
proof (cases ev)
  case (Join t)
  then show ?thesis using assms(2) by simp
next
  case Interrupt
  then show ?thesis using assms(1) guarded_handlers(4) [of s] by (simp add: running_def)
next
  case (CompletionMessage data)
  then show ?thesis using assms(1) guarded_handlers(1) [of data s]
    by (auto simp: running_def)
next
  case (WorkerError msg)
  then show ?thesis using assms(1) guarded_handlers(2) [of msg s]
    by (auto simp: running_def)
next
  case (TimerFire tid)
  show ?thesis
  proof (cases "timers s tid")
    case None
    then show ?thesis using TimerFire by simp
  next
    case (Some tp)
    have "completed (step s ev)"
      using TimerFire timer_fire_completes [OF Some] by simp
    then show ?thesis using assms(1) by (simp add: running_def)
  qed
qed

lemma pending_timer_step:
  assumes "timers s tid = Some (t, p)" and "promises s p = Pending"
    and "p < nextPromise s" and "tid < nextTimer s" and "running (step s ev)"
  shows "timers (step s ev) tid = Some (t, p) \<and> promises (step s ev) p = Pending
    \<and> p < nextPromise (step s ev) \<and> tid < nextTimer (step s ev)"
proof (cases "\<exists>t'. ev = Join t'")
  case True
  then obtain t' where "ev = Join t'" ..
  then show ?thesis
    using assms(1-4) join_keeps_older(1) [of tid s t'] join_keeps_older(2) [of p s t']
      join_keeps_older(3,4) [of s t']
    by simp
next
  case False
  then have "step s ev = s"
    using assms(5) by (intro quiet_step) auto
  then show ?thesis using assms by simp
qed

lemma running_run_step:
  assumes "running s" and "running (run s (ev # evs))"
  shows "running (step s ev)"
proof -
  have "completed (step s ev) \<or> running (step s ev)"
    using assms(1) by (rule running_step)
  moreover have "\<not> completed (step s ev)"
  proof
    assume "completed (step s ev)"
    then have "completed (run (step s ev) evs)" by (rule completed_run)
    then show False using assms(2) by (simp add: running_def)
  qed
  ultimately show ?thesis by blast
qed

lemma pending_timer_run:
  assumes "running s" and "timers s tid = Some (t, p)" and "promises s p = Pending"
    and "p < nextPromise s" and "tid < nextTimer s" and "running (run s evs)"
  shows "timers (run s evs) tid = Some (t, p) \<and> promises (run s evs) p = Pending"
  using assms
proof (induction evs arbitrary: s)
  case Nil
  then show ?case by simp
next
  case (Cons ev evs)
  have r: "running (step s ev)"
    using Cons.prems(1,6) by (rule running_run_step)
  note st = pending_timer_step [OF Cons.prems(2-5) r]
  from Cons.IH [of "step s ev"] r st Cons.prems(6) show ?case by simp
qed

lemma quiet_run:
  assumes "running s" and "running (run s evs)" and "\<forall>t. Join t \<notin> set evs"
  shows "run s evs = s"
  using assms
proof (induction evs arbitrary: s)
  case Nil
  then show ?case by simp
next
  case (Cons ev evs)
  have r: "running (step s ev)"
    using Cons.prems(1,2) by (rule running_run_step)
  have "step s ev = s"
    using r Cons.prems(3) by (intro quiet_step) auto
  then show ?case using Cons.IH [of s] Cons.prems by simp
qed

lemma timer_fires_running:
  assumes "running s" and "timers s tid = Some (t, p)" and "promises s p = Pending"
  shows "promises (step s (TimerFire tid)) p = Rejected (timeoutError t)"
    and "effects (step s (TimerFire tid)) = effects s @ [WorkerTerminate, PortClose, RevokeObjectURL]"
    and "completed (step s (TimerFire tid))"
  using assms by (simp_all add: running_def handle_defs Let_def)

lemma join_timeout_running:
  assumes "running st"
  shows "timers (snd (join (Some t) st)) (nextTimer st) = Some (t, nextPromise st)"
    and "nextTimer st < nextTimer (snd (join (Some t) st))"
    and "nextPromise st < nextPromise (snd (join (Some t) st))"
    and "promises (snd (join (Some t) st)) (nextPromise st) = Pending"
    and "timeoutId (snd (join (Some t) st)) = Some (nextTimer st)"
  using assms by (simp_all add: running_def join_def Let_def)

lemma completion_clears_timer:
  assumes "running s" and "completionSignal data" and "timeoutId s = Some tid"
  shows "timers (step s (CompletionMessage data)) tid = None"
  using assms
  by (simp add: running_def completionSignal_def completionHandler_def
      clearPendingTimeout_def clearTimeout_def removeListeners_def cleanup_def resolve_def
      reject_def Let_def split: option.splits)

text \<open>
  What does hold. \<^verbatim>\<open>join(t)\<close> on a running handle sets a timer. If that timer fires while
  the handle is still running (nothing has ended it first; other \<^verbatim>\<open>join\<close> calls may have
  come in between), the worker is terminated, the port closed and the URL revoked, and the
  promise of that \<^verbatim>\<open>join\<close> rejects with the error whose message is the template
  \<^verbatim>\<open>Thread join timed out after ${timeout}ms\<close> over the timeout it was called with. If
  a completion signal arrives while the handle is still running and no other \<^verbatim>\<open>join\<close>
  was called since, the timer is cleared and the promise rejects with
  \<^verbatim>\<open>Thread error: ${data.error}\<close> when the signal carries a truthy error, and resolves
  with \<^verbatim>\<open>data.code || 0\<close> otherwise.
\<close>

lemma join_timeout_race:
  assumes "running st" and "running (run (snd (join (Some t) st)) evs)"
  shows "promises (step (run (snd (join (Some t) st)) evs) (TimerFire (nextTimer st)))
          (fst (join (Some t) st))
        = Rejected (Error [Lit ''Thread join timed out after '', NumberText t, Lit ''ms''])
    \<and> effects (step (run (snd (join (Some t) st)) evs) (TimerFire (nextTimer st)))
        = effects (run (snd (join (Some t) st)) evs) @ [WorkerTerminate, PortClose, RevokeObjectURL]
    \<and> completed (step (run (snd (join (Some t) st)) evs) (TimerFire (nextTimer st)))
    \<and> ((\<forall>t'. Join t' \<notin> set evs) \<and> completionSignal data \<longrightarrow>
         timers (step (run (snd (join (Some t) st)) evs) (CompletionMessage data)) (nextTimer st)
           = None
       \<and> promises (step (run (snd (join (Some t) st)) evs) (CompletionMessage data))
           (fst (join (Some t) st))
           = (if truthy (get_prop data ''error'')
              then Rejected (Error [Lit ''Thread error: '', ValueText (get_prop data ''error'')])
              else Resolved (if truthy (get_prop data ''code'') then get_prop data ''code''
                             else JNum 0)))"
proof -
  let ?s1 = "snd (join (Some t) st)"
  note jr = join_running [OF assms(1), of "Some t"]
  note jt = join_timeout_running [OF assms(1), of t]
  have pend: "timers (run ?s1 evs) (nextTimer st) = Some (t, nextPromise st)
      \<and> promises (run ?s1 evs) (nextPromise st) = Pending"
    using jr(2) jt(1,4,3,2) assms(2) by (rule pending_timer_run)
  note f = timer_fires_running [OF assms(2) pend [THEN conjunct1] pend [THEN conjunct2]]
  have b: "timers (step (run ?s1 evs) (CompletionMessage data)) (nextTimer st) = None
      \<and> promises (step (run ?s1 evs) (CompletionMessage data)) (nextPromise st)
          = completionOutcome data"
    if q: "\<forall>t'. Join t' \<notin> set evs" and c: "completionSignal data"
  proof -
    have same: "run ?s1 evs = ?s1"
      using jr(2) assms(2) q by (rule quiet_run)
    have "promises (step ?s1 (CompletionMessage data))
        = (promises st)(nextPromise st := completionOutcome data)"
      using completion_running [OF jr(2) c] jr(4,5,6) by simp
    then show ?thesis
      using completion_clears_timer [OF jr(2) c jt(5)] same by simp
  qed
  show ?thesis
    using f b jr(1) by (simp add: timeoutError_def completionOutcome_def)
qed

text \<open>
  The lemma at a fresh handle and \<^verbatim>\<open>join(-5)\<close>, with a stray message on the completion
  port in between.
\<close>

lemma join_timeout_race_example:
  "running (handle_init :: int handle_state)
   \<and> running (run (snd (join (Some (- 5)) (handle_init :: int handle_state))) [CompletionMessage (JStr ''noise'')])
   \<and> (\<forall>t'. Join t' \<notin> set [CompletionMessage (JStr ''noise'') :: int event])
   \<and> completionSignal (JObj [(''type'', JStr ''__thread_complete__''), (''code'', JNum 0)])
   \<and> promises (step (run (snd (join (Some (- 5)) (handle_init :: int handle_state))) [CompletionMessage (JStr ''noise'')])
          (TimerFire (nextTimer (handle_init :: int handle_state))))
        (fst (join (Some (- 5)) (handle_init :: int handle_state)))
      = Rejected (Error [Lit ''Thread join timed out after '', NumberText (- 5), Lit ''ms''])
   \<and> timers (step (run (snd (join (Some (- 5)) (handle_init :: int handle_state))) [CompletionMessage (JStr ''noise'')])
        (CompletionMessage (JObj [(''type'', JStr ''__thread_complete__''), (''code'', JNum 0)])))
        (nextTimer (handle_init :: int handle_state)) = None
   \<and> promises (step (run (snd (join (Some (- 5)) (handle_init :: int handle_state))) [CompletionMessage (JStr ''noise'')])
        (CompletionMessage (JObj [(''type'', JStr ''__thread_complete__''), (''code'', JNum 0)])))
        (fst (join (Some (- 5)) (handle_init :: int handle_state))) = Resolved (JNum 0)"
proof -
  let ?h = "(handle_init :: int handle_state)"
  let ?evs = "[CompletionMessage (JStr ''noise'') :: int event]"
  let ?d = "JObj [(''type'', JStr ''__thread_complete__''), (''code'', JNum 0)]"
  have i: "running ?h"
    by (rule running_init)
  have r: "running (run (snd (join (Some (- 5)) ?h)) ?evs)"
    by (simp add: running_def join_def completionHandler_def handle_init_def Let_def)
  have q: "\<forall>t'. Join t' \<notin> set ?evs"
    by simp
  have c: "completionSignal ?d"
    by (simp add: completionSignal_def)
  note t = join_timeout_race [OF i r, of ?d]
  have a: "promises (step (run (snd (join (Some (- 5)) ?h)) ?evs) (TimerFire (nextTimer ?h)))
        (fst (join (Some (- 5)) ?h))
      = Rejected (Error [Lit ''Thread join timed out after '', NumberText (- 5), Lit ''ms''])"
    using t by simp
  have b: "timers (step (run (snd (join (Some (- 5)) ?h)) ?evs) (CompletionMessage ?d))
        (nextTimer ?h) = None
      \<and> promises (step (run (snd (join (Some (- 5)) ?h)) ?evs) (CompletionMessage ?d))
        (fst (join (Some (- 5)) ?h)) = Resolved (JNum 0)"
    using t q c by simp
  from i r q c a b show ?thesis by blast
qed

text \<open>
  C3. The claim is made for every \<^verbatim>\<open>join\<close> with a timeout on a running handle. The
  source keeps one \<^verbatim>\<open>completionResolve\<close>, one \<^verbatim>\<open>completionReject\<close> and one
  \<^verbatim>\<open>timeoutId\<close> per handle, and each \<^verbatim>\<open>join\<close> overwrites them:
  \<^item> \<^verbatim>\<open>join(500); join();\<close> then the completion signal, which does arrive before the
    timeout: only the second promise is settled, the first (promise 0) stays pending;
  \<^item> \<^verbatim>\<open>join(500); join(1000);\<close> then the completion signal: only the second timer is
    cleared, the first (timer 0) is still set;
  \<^item> \<^verbatim>\<open>join(100); join(400);\<close> and no completion signal, both timers fire: the first
    rejects its promise and ends the handle, the second callback stops at \<^verbatim>\<open>!completed\<close>
    and promise 1 stays pending.
\<close>

theorem concurrent_joins_break_timeout_race:
  "promises (run (handle_init :: int handle_state) [Join (Some 500), Join None, CompletionMessage (JObj [(''type'', JStr ''__thread_complete__''), (''code'', JNum 0)])]) 0 = Pending
   \<and> timers (run (handle_init :: int handle_state) [Join (Some 500), Join (Some 1000), CompletionMessage (JObj [(''type'', JStr ''__thread_complete__''), (''code'', JNum 0)])]) 0 = Some (500, 0)
   \<and> promises (run (handle_init :: int handle_state) [Join (Some 100), Join (Some 400), TimerFire 0, TimerFire 1]) 0
      = Rejected (Error [Lit ''Thread join timed out after '', NumberText 100, Lit ''ms''])
   \<and> promises (run (handle_init :: int handle_state) [Join (Some 100), Join (Some 400), TimerFire 0, TimerFire 1]) 1 = Pending"
  by (simp add: handle_defs handle_init_def timeoutError_def Let_def)

section \<open>Two pending joins\<close>

text \<open>
  C8. Two \<^verbatim>\<open>join\<close> calls on a running handle: each stores its own \<^verbatim>\<open>resolve\<close> and
  \<^verbatim>\<open>reject\<close> in the single pair of variables, so after the second call the pair belongs
  to the second promise. When the completion signal arrives, the second promise is settled
  with the outcome and the first is left pending.
\<close>

theorem second_join_replaces_waiter:
  assumes "running st"
  shows "fst (join t2 (snd (join t1 st))) \<noteq> fst (join t1 st)
    \<and> completionResolve (snd (join t1 st)) = Some (fst (join t1 st))
    \<and> completionReject (snd (join t1 st)) = Some (fst (join t1 st))
    \<and> completionResolve (snd (join t2 (snd (join t1 st)))) = Some (fst (join t2 (snd (join t1 st))))
    \<and> completionReject (snd (join t2 (snd (join t1 st)))) = Some (fst (join t2 (snd (join t1 st))))
    \<and> (completionSignal data \<longrightarrow>
         promises (step (snd (join t2 (snd (join t1 st)))) (CompletionMessage data)) (fst (join t1 st))
           = Pending
       \<and> promises (step (snd (join t2 (snd (join t1 st)))) (CompletionMessage data))
           (fst (join t2 (snd (join t1 st))))
           = (if truthy (get_prop data ''error'')
              then Rejected (Error [Lit ''Thread error: '', ValueText (get_prop data ''error'')])
              else Resolved (if truthy (get_prop data ''code'') then get_prop data ''code''
                             else JNum 0)))"
proof -
  note j1 = join_running [OF assms, of t1]
  note j2 = join_running [OF j1(2), of t2]
  have ids: "fst (join t1 st) = nextPromise st"
    "fst (join t2 (snd (join t1 st))) = Suc (nextPromise st)"
    using j1 j2 by simp_all
  have slots: "completionResolve (snd (join t2 (snd (join t1 st)))) = Some (Suc (nextPromise st))"
    "completionReject (snd (join t2 (snd (join t1 st)))) = Some (Suc (nextPromise st))"
    using j1 j2 by simp_all
  have proms: "promises (snd (join t2 (snd (join t1 st))))
      = (promises st)(nextPromise st := Pending, Suc (nextPromise st) := Pending)"
    using j1 j2 by simp
  have "promises (step (snd (join t2 (snd (join t1 st)))) (CompletionMessage data))
      = (promises st)(nextPromise st := Pending, Suc (nextPromise st) := completionOutcome data)"
    if "completionSignal data"
    using completion_running [OF j2(2) that] slots proms by simp
  then show ?thesis
    using ids j1(4,5) slots by (simp add: completionOutcome_def)
qed

theorem second_join_replaces_waiter_witness:
  "running (handle_init :: int handle_state)
   \<and> completionResolve (snd (join None (snd (join (Some 500) (handle_init :: int handle_state))))) = Some 1
   \<and> promises (step (snd (join None (snd (join (Some 500) (handle_init :: int handle_state)))))
        (CompletionMessage (JObj [(''type'', JStr ''__thread_complete__''), (''code'', JNum 0)]))) 0
      = Pending
   \<and> promises (step (snd (join None (snd (join (Some 500) (handle_init :: int handle_state)))))
        (CompletionMessage (JObj [(''type'', JStr ''__thread_complete__''), (''code'', JNum 0)]))) 1
      = Resolved (JNum 0)"
proof -
  have ri: "running (handle_init :: int handle_state)"
    by (rule running_init)
  have c: "completionSignal (JObj [(''type'', JStr ''__thread_complete__''), (''code'', JNum 0)])"
    by (simp add: completionSignal_def)
  have i: "fst (join (Some 500) (handle_init :: int handle_state)) = 0"
    "fst (join None (snd (join (Some 500) (handle_init :: int handle_state)))) = 1"
    by (simp_all add: join_def handle_init_def Let_def)
  show ?thesis
    using ri c
      second_join_replaces_waiter [OF ri, of None "Some 500"
        "JObj [(''type'', JStr ''__thread_complete__''), (''code'', JNum 0)]"]
    by (simp add: i)
qed

section \<open>A job that returns\<close>

text \<open>
  C9. A job that returns (whatever value) makes the worker post the one signal
  \<^verbatim>\<open>{type: '__thread_complete__', code: 0}\<close>: the returned value is not looked at. On a
  running handle a \<^verbatim>\<open>join\<close> pending when the signal arrives resolves with 0, a
  \<^verbatim>\<open>join\<close> called after it resolves with 0 too, and the handler stores 0 for any signal
  without error whose code is missing or falsy.
\<close>

theorem returning_job_joins_with_zero:
  assumes "outcome j = Returns r" and "running st"
  shows "snd (workerCode j) = [JObj [(''type'', JStr ''__thread_complete__''), (''code'', JNum 0)]]
    \<and> promises (run (snd (join t st)) (map CompletionMessage (snd (workerCode j)))) (fst (join t st))
        = Resolved (JNum 0)
    \<and> promises (snd (join t (run st (map CompletionMessage (snd (workerCode j))))))
        (fst (join t (run st (map CompletionMessage (snd (workerCode j)))))) = Resolved (JNum 0)
    \<and> (completionSignal data \<and> \<not> truthy (get_prop data ''error'')
          \<and> \<not> truthy (get_prop data ''code'')
        \<longrightarrow> completionCode (step st (CompletionMessage data)) = JNum 0)"
proof -
  let ?d = "JObj [(''type'', JStr ''__thread_complete__''), (''code'', JNum 0)]"
  have w: "snd (workerCode j) = [?d]"
    using assms(1) by (simp add: workerCode_def)
  have d: "completionSignal ?d" "\<not> truthy (get_prop ?d ''error'')" "\<not> truthy (get_prop ?d ''code'')"
    by (simp_all add: completionSignal_def)
  note jr = join_running [OF assms(2), of t]
  have "promises (step (snd (join t st)) (CompletionMessage ?d))
      = (promises st)(nextPromise st := Resolved (JNum 0))"
    using completion_running [OF jr(2) d(1)] d(2,3) jr(4,6) by (simp add: completionOutcome_def)
  then have first: "promises (run (snd (join t st)) (map CompletionMessage (snd (workerCode j))))
      (fst (join t st)) = Resolved (JNum 0)"
    using w jr(1) by simp
  note c = completion_running_state [OF assms(2) d(1,2)]
  have so: "stored_outcome (step st (CompletionMessage ?d)) = Resolved (JNum 0)"
    using c by (simp add: stored_outcome_def)
  have second: "promises (snd (join t (run st (map CompletionMessage (snd (workerCode j))))))
      (fst (join t (run st (map CompletionMessage (snd (workerCode j)))))) = Resolved (JNum 0)"
    using join_terminal(1) [OF c(1), of t] so w by simp
  have third: "completionCode (step st (CompletionMessage data)) = JNum 0"
    if "completionSignal data" "\<not> truthy (get_prop data ''error'')"
      "\<not> truthy (get_prop data ''code'')"
    using completion_running_state(4) [OF assms(2) that(1,2)] that(3) by simp
  from w first second third show ?thesis by blast
qed

theorem returning_job_joins_with_zero_witness:
  "outcome \<lparr>sends = [JStr ''hi''], outcome = Returns (JNum 42)\<rparr> = Returns (JNum 42)
   \<and> running (handle_init :: int handle_state)
   \<and> promises (run (snd (join (Some 1000) (handle_init :: int handle_state)))
        (map CompletionMessage
           (snd (workerCode \<lparr>sends = [JStr ''hi''], outcome = Returns (JNum 42)\<rparr>))))
        (fst (join (Some 1000) (handle_init :: int handle_state))) = Resolved (JNum 0)
   \<and> completionSignal (JObj [(''type'', JStr ''__thread_complete__'')])
   \<and> completionCode (step (handle_init :: int handle_state)
        (CompletionMessage (JObj [(''type'', JStr ''__thread_complete__'')]))) = JNum 0"
proof -
  have ri: "running (handle_init :: int handle_state)"
    by (rule running_init)
  have o: "outcome \<lparr>sends = [JStr ''hi''], outcome = Returns (JNum 42)\<rparr> = Returns (JNum 42)"
    by simp
  have c: "completionSignal (JObj [(''type'', JStr ''__thread_complete__'')])"
    "\<not> truthy (get_prop (JObj [(''type'', JStr ''__thread_complete__'')]) ''error'')"
    "\<not> truthy (get_prop (JObj [(''type'', JStr ''__thread_complete__'')]) ''code'')"
    by (simp_all add: completionSignal_def)
  show ?thesis
    using o ri c
      returning_job_joins_with_zero [OF o ri, of "Some 1000"
        "JObj [(''type'', JStr ''__thread_complete__'')]"]
    by blast
qed

section \<open>Receiving messages\<close>

subsection \<open>What a dispatch does to the listeners\<close>

lemma fold_handler_fields:
  "queue (fold (handler m) ls ps) = queue ps"
  "calls (fold (handler m) ls ps) = calls ps"
  "started (fold (handler m) ls ps) = started ps"
  "onmessage (fold (handler m) ls ps) = onmessage ps"
  "nextRecv (fold (handler m) ls ps) = nextRecv ps"
  by (induction ls arbitrary: ps) (simp_all add: handler_def)

lemma fold_handler_listeners:
  "listeners (fold (handler m) ls ps) = filter (\<lambda>p. p \<notin> set ls) (listeners ps)"
proof (induction ls arbitrary: ps)
  case Nil
  then show ?case by simp
next
  case (Cons x ls)
  have "listeners (handler m x ps) = filter (\<lambda>p. p \<noteq> x) (listeners ps)"
    by (simp add: handler_def removeAll_filter_not_eq) metis
  then show ?case
    using Cons.IH [of "handler m x ps"] by (simp add: conj_commute)
qed

lemma fold_handler_received:
  "received (fold (handler m) ls ps) p =
     (if p \<in> set ls \<and> received ps p = None then Some m else received ps p)"
proof (induction ls arbitrary: ps)
  case Nil
  then show ?case by simp
next
  case (Cons x ls)
  have h: "received (handler m x ps) q =
      (if q = x \<and> received ps x = None then Some m else received ps q)" for q
    by (simp add: handler_def)
  show ?case
    using Cons.IH [of "handler m x ps"] by (auto simp: h)
qed

lemma dispatch_head:
  assumes "started ps" and "queue ps = m # q"
  shows "queue (dispatch ps) = q"
    and "listeners (dispatch ps) = []"
    and "received (dispatch ps) p =
      (if p \<in> set (listeners ps) \<and> received ps p = None then Some m else received ps p)"
    and "nextRecv (dispatch ps) = nextRecv ps"
  using assms
  by (simp_all add: dispatch_def fold_handler_fields fold_handler_listeners fold_handler_received
      split: option.splits)

subsection \<open>Registered listeners are pending\<close>

lemma port_inv_init: "port_inv port_init"
  by (simp add: port_inv_def port_init_def)

lemma port_inv_step:
  assumes "port_inv ps"
  shows "port_inv (port_step ps ev)"
proof (cases ev)
  case (Post m)
  then show ?thesis using assms by (simp add: port_inv_def post_def)
next
  case Dispatch
  show ?thesis
  proof (cases "started ps")
    case False
    then show ?thesis using assms Dispatch by (simp add: dispatch_def)
  next
    case True
    show ?thesis
    proof (cases "queue ps")
      case Nil
      then show ?thesis using assms Dispatch True by (simp add: dispatch_def)
    next
      case (Cons m q)
      then have "listeners (dispatch ps) = []"
        using True by (rule dispatch_head(2) [rotated])
      then show ?thesis using Dispatch by (simp add: port_inv_def)
    qed
  qed
next
  case Recv
  then show ?thesis using assms by (auto simp: port_inv_def recv_def Let_def)
next
  case (OnMessage cb)
  then show ?thesis using assms by (simp add: port_inv_def onMessage_def)
qed

lemma port_inv_run:
  assumes "port_inv ps"
  shows "port_inv (port_run ps evs)"
  using assms by (induction evs arbitrary: ps) (simp_all add: port_inv_step)

subsection \<open>One recv before each dispatch\<close>

lemma recv_dispatch_rounds:
  assumes "listeners ps = []" and "queue ps = ms"
  shows "received (port_run ps (concat (map (\<lambda>_. [Recv, Dispatch]) ms))) p =
      (if nextRecv ps \<le> p \<and> p < nextRecv ps + length ms then Some (ms ! (p - nextRecv ps))
       else received ps p)"
  using assms
proof (induction ms arbitrary: ps)
  case Nil
  then show ?case by auto
next
  case (Cons m ms)
  let ?r = "snd (recv ps)"
  let ?d = "dispatch ?r"
  have r: "started ?r" "queue ?r = m # ms" "listeners ?r = [nextRecv ps]"
    "received ?r = (received ps)(nextRecv ps := None)" "nextRecv ?r = Suc (nextRecv ps)"
    using Cons.prems by (simp_all add: recv_def Let_def)
  have d: "queue ?d = ms" "listeners ?d = []" "nextRecv ?d = Suc (nextRecv ps)"
    "received ?d = (received ps)(nextRecv ps := Some m)"
    using dispatch_head [OF r(1,2)] r(3,4,5) by (auto simp: fun_eq_iff)
  have "received (port_run ?d (concat (map (\<lambda>_. [Recv, Dispatch]) ms))) p =
      (if nextRecv ?d \<le> p \<and> p < nextRecv ?d + length ms then Some (ms ! (p - nextRecv ?d))
       else received ?d p)"
    by (rule Cons.IH [OF d(2,1)])
  then show ?case
    using d(3,4) by (auto simp: nth_Cons' Suc_diff_Suc not_le less_Suc_eq_le dest: le_antisym)
qed

subsection \<open>The claim and what holds\<close>

text \<open>
  C4, as stated, fails: every \<^verbatim>\<open>recv\<close> adds its own listener to the port, and a
  \<^verbatim>\<open>message\<close> event goes to all of them. With two \<^verbatim>\<open>recv\<close> calls pending, the one
  message that arrives resolves both promises.
\<close>

theorem two_pending_recv_get_same_message:
  "received (port_run port_init [Recv, Recv, Post (JNum 7), Dispatch]) 0 = Some (JNum 7)
   \<and> received (port_run port_init [Recv, Recv, Post (JNum 7), Dispatch]) 1 = Some (JNum 7)"
  by (simp add: port_init_def recv_def post_def dispatch_def handler_def Let_def)

text \<open>
  C4, amended. Messages are queued in posting order and dispatched one at a time from the
  head of the queue. A dispatch removes the message from the queue for good and resolves
  every \<^verbatim>\<open>recv\<close> pending at that moment with it: all of them when several are pending,
  none when none is. When the owner issues one \<^verbatim>\<open>recv\<close> before each dispatch, the
  \<open>i\<close>-th \<^verbatim>\<open>recv\<close> resolves with the \<open>i\<close>-th message sent, so the messages are observed
  in send order, each by one \<^verbatim>\<open>recv\<close>.
\<close>

theorem dispatch_resolves_every_pending_recv:
  assumes "ps = port_run port_init evs" and "started ps" and "queue ps = m # q"
  shows "queue (post m' ps) = queue ps @ [m']
    \<and> queue (dispatch ps) = q
    \<and> listeners (dispatch ps) = []
    \<and> (\<forall>p. received (dispatch ps) p = (if p \<in> set (listeners ps) then Some m else received ps p))
    \<and> map (received (port_run port_init (map Post ms @ concat (map (\<lambda>_. [Recv, Dispatch]) ms))))
        [0..<length ms] = map Some ms"
proof -
  have inv: "port_inv ps"
    using assms(1) port_inv_run [OF port_inv_init] by simp
  have rcv: "received (dispatch ps) p = (if p \<in> set (listeners ps) then Some m else received ps p)"
    for p
    using dispatch_head(3) [OF assms(2,3), of p] inv by (simp add: port_inv_def)
  have posts: "queue (port_run s (map Post ms)) = queue s @ ms
      \<and> listeners (port_run s (map Post ms)) = listeners s
      \<and> nextRecv (port_run s (map Post ms)) = nextRecv s" for s
    by (induction ms arbitrary: s) (simp_all add: post_def)
  let ?s = "port_run port_init (map Post ms)"
  have s: "listeners ?s = []" "queue ?s = ms" "nextRecv ?s = 0"
    using posts [of port_init] by (simp_all add: port_init_def)
  have "received (port_run ?s (concat (map (\<lambda>_. [Recv, Dispatch]) ms))) p = Some (ms ! p)"
    if "p < length ms" for p
    using recv_dispatch_rounds [OF s(1,2), of p] s(3) that by simp
  then have "map (received (port_run port_init (map Post ms @ concat (map (\<lambda>_. [Recv, Dispatch]) ms))))
        [0..<length ms] = map Some ms"
    by (intro nth_equalityI) (simp_all add: port_run_append)
  then show ?thesis
    using dispatch_head(1,2) [OF assms(2,3)] rcv by (simp add: post_def)
qed

theorem dispatch_resolves_every_pending_recv_witness:
  "port_run port_init [Recv, Recv, Post (JNum 7)] = port_run port_init [Recv, Recv, Post (JNum 7)]
   \<and> started (port_run port_init [Recv, Recv, Post (JNum 7)])
   \<and> queue (port_run port_init [Recv, Recv, Post (JNum 7)]) = [JNum 7]
   \<and> listeners (port_run port_init [Recv, Recv, Post (JNum 7)]) = [0, 1]
   \<and> queue (dispatch (port_run port_init [Recv, Recv, Post (JNum 7)])) = []
   \<and> (\<forall>p. received (dispatch (port_run port_init [Recv, Recv, Post (JNum 7)])) p
         = (if p \<in> set (listeners (port_run port_init [Recv, Recv, Post (JNum 7)]))
            then Some (JNum 7) else received (port_run port_init [Recv, Recv, Post (JNum 7)]) p))
   \<and> map (received (port_run port_init
        (map Post [JStr ''a'', JStr ''b'']
         @ concat (map (\<lambda>_. [Recv, Dispatch]) [JStr ''a'', JStr ''b'']))))
        [0..<length [JStr ''a'', JStr ''b'']] = map Some [JStr ''a'', JStr ''b'']"
proof -
  let ?ps = "port_run port_init [Recv, Recv, Post (JNum 7)]"
  have h: "?ps = port_run port_init [Recv, Recv, Post (JNum 7)]" "started ?ps"
    "queue ?ps = [JNum 7]"
    by (simp_all add: port_init_def recv_def post_def Let_def)
  have l: "listeners ?ps = [0, 1]"
    by (simp add: port_init_def recv_def post_def Let_def)
  show ?thesis
    using h l dispatch_resolves_every_pending_recv [OF h, of JUndef "[JStr ''a'', JStr ''b'']"]
    by blast
qed

section \<open>Registering a second callback\<close>

lemma onmessage_set_run:
  assumes "onmessage s = Some cb" and "\<forall>c. OnMessage c \<notin> set evs"
  shows "onmessage (port_run s evs) = Some cb
    \<and> calls (port_run s evs) @ map (Pair cb) (queue (port_run s evs))
        = calls s @ map (Pair cb) (queue s @ posted evs)"
  using assms
proof (induction evs arbitrary: s)
  case Nil
  then show ?case by simp
next
  case (Cons ev evs)
  from Cons.prems(2) have evs: "\<forall>c. OnMessage c \<notin> set evs" and ev: "\<forall>c. ev \<noteq> OnMessage c"
    by auto
  have st: "onmessage (port_step s ev) = Some cb
      \<and> calls (port_step s ev) @ map (Pair cb) (queue (port_step s ev))
          = calls s @ map (Pair cb) (queue s @ posted [ev])"
  proof (cases ev)
    case (Post m)
    then show ?thesis using Cons.prems(1) by (simp add: post_def)
  next
    case Dispatch
    then show ?thesis using Cons.prems(1)
      by (simp add: dispatch_def fold_handler_fields split: list.splits)
  next
    case Recv
    then show ?thesis using Cons.prems(1) by (simp add: recv_def Let_def)
  next
    case (OnMessage c)
    then show ?thesis using ev by simp
  qed
  have p: "posted (ev # evs) = posted [ev] @ posted evs"
    by (cases ev) simp_all
  from st Cons.IH [of "port_step s ev"] evs p show ?case by simp
qed

text \<open>
  C10. \<^verbatim>\<open>onMessage\<close> assigns the port's one \<^verbatim>\<open>onmessage\<close> slot. After a second call with
  another callback, and as long as no further callback is registered, the slot holds the
  second callback; the calls made so far followed by the messages still queued are the earlier
  calls followed by all messages that were queued or have arrived since, each for the second
  callback and in arrival order; and the first callback is called no more.
\<close>

theorem onMessage_replaces_callback:
  assumes "cb1 \<noteq> cb2" and "\<forall>c. OnMessage c \<notin> set evs"
  shows "onmessage (port_run (onMessage cb2 (onMessage cb1 ps)) evs) = Some cb2
    \<and> calls (port_run (onMessage cb2 (onMessage cb1 ps)) evs)
          @ map (Pair cb2) (queue (port_run (onMessage cb2 (onMessage cb1 ps)) evs))
        = calls ps @ map (Pair cb2) (queue ps @ posted evs)
    \<and> filter (\<lambda>c. fst c = cb1) (calls (port_run (onMessage cb2 (onMessage cb1 ps)) evs))
        = filter (\<lambda>c. fst c = cb1) (calls ps)"
proof -
  let ?s = "onMessage cb2 (onMessage cb1 ps)"
  have s: "onmessage ?s = Some cb2" "calls ?s = calls ps" "queue ?s = queue ps"
    by (simp_all add: onMessage_def)
  note r = onmessage_set_run [OF s(1) assms(2)]
  have eq: "calls (port_run ?s evs) @ map (Pair cb2) (queue (port_run ?s evs))
      = calls ps @ map (Pair cb2) (queue ps @ posted evs)"
    using r s by simp
  have none: "filter (\<lambda>c. fst c = cb1) (map (Pair cb2) xs) = []" for xs :: "jsval list"
    using assms(1) by (induction xs) auto
  have "filter (\<lambda>c. fst c = cb1) (calls (port_run ?s evs) @ map (Pair cb2) (queue (port_run ?s evs)))
      = filter (\<lambda>c. fst c = cb1) (calls ps @ map (Pair cb2) (queue ps @ posted evs))"
    by (simp only: eq)
  then have "filter (\<lambda>c. fst c = cb1) (calls (port_run ?s evs))
      = filter (\<lambda>c. fst c = cb1) (calls ps)"
    by (simp only: filter_append none append_Nil2)
  then show ?thesis using r eq by simp
qed

theorem onMessage_replaces_callback_witness:
  "(1::nat) \<noteq> 2
   \<and> (\<forall>c. OnMessage c \<notin> set [Post (JStr ''a''), Dispatch, Post (JStr ''b''), Dispatch])
   \<and> calls (port_run (onMessage 2 (onMessage 1 port_init))
        [Post (JStr ''a''), Dispatch, Post (JStr ''b''), Dispatch])
      = [(2, JStr ''a''), (2, JStr ''b'')]
   \<and> filter (\<lambda>c. fst c = 1) (calls (port_run (onMessage 2 (onMessage 1 port_init))
        [Post (JStr ''a''), Dispatch, Post (JStr ''b''), Dispatch])) = []"
proof -
  let ?evs = "[Post (JStr ''a''), Dispatch, Post (JStr ''b''), Dispatch]"
  have h: "(1::nat) \<noteq> 2" "\<forall>c. OnMessage c \<notin> set ?evs"
    by simp_all
  have q: "queue (port_run (onMessage 2 (onMessage 1 port_init)) ?evs) = []"
    by (simp add: port_init_def onMessage_def post_def dispatch_def)
  have i: "calls port_init = []" "queue port_init = []" "posted ?evs = [JStr ''a'', JStr ''b'']"
    by (simp_all add: port_init_def)
  show ?thesis
    using h onMessage_replaces_callback [OF h, of port_init] q i by simp
qed

section \<open>Thread ids\<close>

lemma spawn_ids_Suc: "spawn_ids c (Suc n) = c # spawn_ids (js_incr c) n"
  by (simp add: spawn_def)

text \<open>While the counter stays in the range where \<^verbatim>\<open>++\<close> is exact, the ids count up.\<close>

lemma spawn_ids_exact:
  assumes "c + n \<le> 2 ^ 53 + 1"
  shows "spawn_ids c n = [c..<c + n]"
  using assms
proof (induction n arbitrary: c)
  case 0
  then show ?case by simp
next
  case (Suc n)
  show ?case
  proof (cases n)
    case 0
    then show ?thesis by (simp add: spawn_ids_Suc del: spawn_ids.simps(2))
  next
    case (Suc k)
    with Suc.prems have "c < 2 ^ 53" by simp
    then have i: "js_incr c = Suc c" by (simp add: js_incr_def)
    have "spawn_ids (Suc c) n = [Suc c..<Suc c + n]"
      using Suc.prems by (intro Suc.IH) simp
    then show ?thesis
      by (simp add: spawn_ids_Suc i upt_conv_Cons del: spawn_ids.simps(2))
  qed
qed

text \<open>Once the counter has reached \<open>2 ^ 53\<close>, every spawn returns that same id.\<close>

lemma spawn_ids_saturated:
  assumes "2 ^ 53 \<le> c"
  shows "spawn_ids c n = replicate n c"
  using assms
  by (induction n) (simp_all add: spawn_ids_Suc js_incr_def del: spawn_ids.simps(2))

lemma spawn_ids_append:
  "spawn_ids c (m + n) = spawn_ids c m @ spawn_ids ((js_incr ^^ m) c) n"
proof (induction m arbitrary: c)
  case 0
  then show ?case by simp
next
  case (Suc m)
  show ?case
    using Suc.IH [of "js_incr c"]
    by (simp add: spawn_ids_Suc funpow_swap1 del: spawn_ids.simps(2))
qed

lemma js_incr_funpow:
  assumes "c + m \<le> 2 ^ 53"
  shows "(js_incr ^^ m) c = c + m"
  using assms by (induction m) (simp_all add: js_incr_def)

text \<open>
  C6, as stated for every \<open>N\<close>, fails on the number type of the counter: the spawn number
  \<open>2 ^ 53\<close> takes the id \<open>2 ^ 53\<close> and leaves the counter unchanged, so the next spawn takes
  the same id.
\<close>

theorem spawn_ids_repeat_beyond_exact_range:
  "\<not> distinct (spawn_ids threadIdCounter_init (2 ^ 53 + 1))"
proof -
  define K :: nat where "K = 2 ^ 53"
  have K: "1 \<le> K" by (simp add: K_def)
  have split: "K + 1 = (K - 1) + 2" using K by simp
  have c: "(js_incr ^^ (K - 1)) 1 = K"
    using js_incr_funpow [of 1 "K - 1"] K by (simp add: K_def)
  have "spawn_ids 1 (K + 1) = spawn_ids 1 (K - 1) @ spawn_ids K 2"
    unfolding split spawn_ids_append c ..
  moreover have "spawn_ids K 2 = [K, K]"
    using spawn_ids_saturated [of K 2] by (simp add: K_def numeral_2_eq_2)
  ultimately have "\<not> distinct (spawn_ids 1 (K + 1))" by simp
  then show ?thesis by (simp add: K_def threadIdCounter_init_def)
qed

text \<open>
  C6, amended. For \<open>N\<close> calls of \<^verbatim>\<open>spawn\<close> from the start of the process, with
  \<open>1 \<le> N \<le> 2 ^ 53\<close>, the \<open>N\<close> ids are pairwise distinct, strictly increasing in spawn
  order, and none is 0, the id \<^verbatim>\<open>Thread.id()\<close> returns in the initiating context.
\<close>

theorem spawn_ids_distinct_increasing:
  assumes "1 \<le> N" and "N \<le> 2 ^ 53"
  shows "length (spawn_ids threadIdCounter_init N) = N
    \<and> distinct (spawn_ids threadIdCounter_init N)
    \<and> sorted_wrt (<) (spawn_ids threadIdCounter_init N)
    \<and> 0 \<notin> set (spawn_ids threadIdCounter_init N)
    \<and> getThreadId = 0"
proof -
  have ids: "spawn_ids threadIdCounter_init N = [1..<1 + N]"
    using assms(2) spawn_ids_exact [of 1 N] by (simp add: threadIdCounter_init_def)
  have "length [1..<1 + N] = N" "distinct [1..<1 + N]" "sorted_wrt (<) [1..<1 + N]"
    "0 \<notin> set [1..<1 + N]"
    by (simp_all del: upt_Suc)
  then show ?thesis
    unfolding ids by (simp add: getThreadId_def mainThreadId_def del: upt_Suc)
qed

theorem spawn_ids_distinct_increasing_witness:
  "(1::nat) \<le> 3 \<and> (3::nat) \<le> 2 ^ 53
   \<and> length (spawn_ids threadIdCounter_init 3) = 3
   \<and> distinct (spawn_ids threadIdCounter_init 3)
   \<and> sorted_wrt (<) (spawn_ids threadIdCounter_init 3)
   \<and> 0 \<notin> set (spawn_ids threadIdCounter_init 3)"
proof -
  have h: "(1::nat) \<le> 3" "(3::nat) \<le> 2 ^ 53" by simp_all
  show ?thesis
    using h spawn_ids_distinct_increasing [OF h] by simp
qed

end
